theory Spec2Isabelle
  imports Main "HOL-Library.AList" "HOL-Library.Word"
begin

section \<open>Bytes, text and the UTF-8 codecs used by the scripts\<close>

text \<open>
  Both scripts (\<^verbatim>\<open>utf-8+bom.py\<close> and \<^verbatim>\<open>utf-8-bom.py\<close>) read a file as bytes for their two
  probes and as text for the rewrite.  A byte is an 8-bit word, a Python \<^verbatim>\<open>str\<close> is a list of
  code points.  The codecs \<^verbatim>\<open>'utf-8'\<close> and \<^verbatim>\<open>'utf-8-sig'\<close> and the newline handling of text
  mode belong to the Python runtime the scripts call; they are written out here as the
  runtime performs them, because they decide which bytes end up on disk.
\<close>

type_synonym byte = "8 word"
type_synonym bytes = "byte list"
type_synonym str = "nat list"

definition BOM_UTF8 :: bytes where
  "BOM_UTF8 = [0xEF, 0xBB, 0xBF]"

definition in_range :: "nat \<Rightarrow> nat \<Rightarrow> byte \<Rightarrow> bool" where
  "in_range lo hi b = (lo \<le> unat b \<and> unat b \<le> hi)"

definition low6 :: "byte \<Rightarrow> nat" where
  "low6 b = unat b - 0x80"

text \<open>
  One step of the strict decoder: the well-formed byte sequences of the Unicode standard
  (no overlong forms, no surrogates, nothing above U+10FFFF).  The result is the code point
  and the bytes that follow it.
\<close>

fun decode_char :: "bytes \<Rightarrow> (nat \<times> bytes) option" where
  "decode_char [] = None"
| "decode_char (b0 # bs) =
     (let n0 = unat b0 in
      if n0 < 0x80 then Some (n0, bs)
      else if n0 < 0xC2 then None
      else if n0 < 0xE0 then
        (case bs of
           b1 # r \<Rightarrow>
             if in_range 0x80 0xBF b1 then Some ((n0 - 0xC0) * 64 + low6 b1, r) else None
         | _ \<Rightarrow> None)
      else if n0 < 0xF0 then
        (case bs of
           b1 # b2 # r \<Rightarrow>
             if in_range (if n0 = 0xE0 then 0xA0 else 0x80) (if n0 = 0xED then 0x9F else 0xBF) b1
                \<and> in_range 0x80 0xBF b2
             then Some ((n0 - 0xE0) * 4096 + low6 b1 * 64 + low6 b2, r) else None
         | _ \<Rightarrow> None)
      else if n0 < 0xF5 then
        (case bs of
           b1 # b2 # b3 # r \<Rightarrow>
             if in_range (if n0 = 0xF0 then 0x90 else 0x80) (if n0 = 0xF4 then 0x8F else 0xBF) b1
                \<and> in_range 0x80 0xBF b2 \<and> in_range 0x80 0xBF b3
             then Some ((n0 - 0xF0) * 262144 + low6 b1 * 4096 + low6 b2 * 64 + low6 b3, r)
             else None
         | _ \<Rightarrow> None)
      else None)"

lemma decode_char_shorter:
  "decode_char bs = Some (c, r) \<Longrightarrow> length r < length bs"
  by (cases bs) (auto simp: Let_def split: if_splits list.splits)

text \<open>\<^verbatim>\<open>bytes.decode('utf-8')\<close> with strict errors: \<open>None\<close> is \<^verbatim>\<open>UnicodeDecodeError\<close>.\<close>

function utf_8_decode :: "bytes \<Rightarrow> str option" where
  "utf_8_decode [] = Some []"
| "utf_8_decode (b # bs) =
     (case decode_char (b # bs) of
        None \<Rightarrow> None
      | Some (c, r) \<Rightarrow> map_option ((#) c) (utf_8_decode r))"
  by pat_completeness auto
termination
  by (relation "measure length") (auto dest: decode_char_shorter simp del: decode_char.simps)

text \<open>
  \<^verbatim>\<open>str.encode('utf-8')\<close>: a surrogate cannot be encoded (\<^verbatim>\<open>UnicodeEncodeError\<close>, here
  \<open>None\<close>); a Python string holds no code point above U+10FFFF.
\<close>

definition encode_char :: "nat \<Rightarrow> bytes option" where
  "encode_char c =
     (if c < 0x80 then Some [of_nat c]
      else if c < 0x800 then Some [of_nat (0xC0 + c div 64), of_nat (0x80 + c mod 64)]
      else if 0xD800 \<le> c \<and> c < 0xE000 then None
      else if c < 0x10000 then
        Some [of_nat (0xE0 + c div 4096), of_nat (0x80 + c div 64 mod 64),
              of_nat (0x80 + c mod 64)]
      else if c < 0x110000 then
        Some [of_nat (0xF0 + c div 262144), of_nat (0x80 + c div 4096 mod 64),
              of_nat (0x80 + c div 64 mod 64), of_nat (0x80 + c mod 64)]
      else None)"

fun utf_8_encode :: "str \<Rightarrow> bytes option" where
  "utf_8_encode [] = Some []"
| "utf_8_encode (c # cs) =
     (case encode_char c of
        None \<Rightarrow> None
      | Some bs \<Rightarrow> map_option ((@) bs) (utf_8_encode cs))"

text \<open>
  The two codec names the scripts pass to \<^verbatim>\<open>open\<close>.  Reading with \<^verbatim>\<open>'utf-8-sig'\<close> drops one
  leading BOM when there is one; writing with it puts one BOM in front, also in front of
  the empty string.
\<close>

datatype encoding = Utf8 | Utf8Sig

definition decode :: "encoding \<Rightarrow> bytes \<Rightarrow> str option" where
  "decode enc bs =
     (case enc of
        Utf8 \<Rightarrow> utf_8_decode bs
      | Utf8Sig \<Rightarrow> utf_8_decode (if take 3 bs = BOM_UTF8 then drop 3 bs else bs))"

definition encode :: "encoding \<Rightarrow> str \<Rightarrow> bytes option" where
  "encode enc s =
     (case enc of
        Utf8 \<Rightarrow> utf_8_encode s
      | Utf8Sig \<Rightarrow> map_option ((@) BOM_UTF8) (utf_8_encode s))"

text \<open>
  Text mode with the default \<^verbatim>\<open>newline=None\<close>: on reading, \<^verbatim>\<open>\r\n\<close> and a lone \<^verbatim>\<open>\r\<close>
  both become \<^verbatim>\<open>\n\<close>; on writing, every \<^verbatim>\<open>\n\<close> becomes \<^verbatim>\<open>os.linesep\<close>.
\<close>

datatype platform = Posix | Windows

definition linesep :: "platform \<Rightarrow> str" where
  "linesep pf = (case pf of Posix \<Rightarrow> [10] | Windows \<Rightarrow> [13, 10])"

fun universal_newlines :: "str \<Rightarrow> str" where
  "universal_newlines [] = []"
| "universal_newlines (c # cs) =
     (if c = 13 then
        (case cs of
           [] \<Rightarrow> [10]
         | d # r \<Rightarrow> if d = 10 then 10 # universal_newlines r else 10 # universal_newlines cs)
      else c # universal_newlines cs)"

definition write_newlines :: "platform \<Rightarrow> str \<Rightarrow> str" where
  "write_newlines pf s = concat (map (\<lambda>c. if c = 10 then linesep pf else [c]) s)"

section \<open>The directory tree\<close>

text \<open>
  A path is the tuple \<^verbatim>\<open>Path.parts\<close> of an absolute path.  The tree is an association list
  from paths to nodes, in traversal order; a regular file carries its bytes and whether the
  process may read and write it.
\<close>

type_synonym path = "string list"

datatype node = Dir | File (data: bytes) (readable: bool) (writable: bool)

type_synonym fs = "(path \<times> node) list"

datatype exn =
  UnicodeDecodeError | UnicodeEncodeError | FileNotFoundError | IsADirectoryError
  | PermissionError

text \<open>\<^verbatim>\<open>str(e)\<close>, without the path and position the runtime appends.\<close>

fun str_exn :: "exn \<Rightarrow> string" where
  "str_exn UnicodeDecodeError = ''codec cannot decode byte''"
| "str_exn UnicodeEncodeError = ''codec cannot encode character''"
| "str_exn FileNotFoundError = ''[Errno 2] No such file or directory''"
| "str_exn IsADirectoryError = ''[Errno 21] Is a directory''"
| "str_exn PermissionError = ''[Errno 13] Permission denied''"

text \<open>\<^verbatim>\<open>open(file_path, 'rb')\<close> followed by reading: the whole content, or the exception.\<close>

definition read_bytes :: "fs \<Rightarrow> path \<Rightarrow> exn + bytes" where
  "read_bytes fs file_path =
     (case map_of fs file_path of
        None \<Rightarrow> Inl FileNotFoundError
      | Some Dir \<Rightarrow> Inl IsADirectoryError
      | Some (File content r w) \<Rightarrow> if r then Inr content else Inl PermissionError)"

text \<open>\<^verbatim>\<open>open(file_path, 'r', encoding=enc).read()\<close>.\<close>

definition read_text :: "encoding \<Rightarrow> fs \<Rightarrow> path \<Rightarrow> exn + str" where
  "read_text enc fs file_path =
     (case read_bytes fs file_path of
        Inl e \<Rightarrow> Inl e
      | Inr content \<Rightarrow>
          (case decode enc content of
             None \<Rightarrow> Inl UnicodeDecodeError
           | Some s \<Rightarrow> Inr (universal_newlines s)))"

text \<open>
  \<^verbatim>\<open>open(file_path, 'w', encoding=enc).write(s)\<close>.  Opening truncates the file (and creates it
  when only its directory exists), so a failure of the encoder leaves it empty.
\<close>

definition store :: "encoding \<Rightarrow> platform \<Rightarrow> fs \<Rightarrow> path \<Rightarrow> bool \<Rightarrow> bool \<Rightarrow> str \<Rightarrow> exn option \<times> fs" where
  "store enc pf fs file_path r w s =
     (case encode enc (write_newlines pf s) of
        None \<Rightarrow> (Some UnicodeEncodeError, AList.update file_path (File [] r w) fs)
      | Some content \<Rightarrow> (None, AList.update file_path (File content r w) fs))"

definition write_text :: "encoding \<Rightarrow> platform \<Rightarrow> fs \<Rightarrow> path \<Rightarrow> str \<Rightarrow> exn option \<times> fs" where
  "write_text enc pf fs file_path s =
     (case map_of fs file_path of
        None \<Rightarrow>
          if map_of fs (butlast file_path) = Some Dir then store enc pf fs file_path True True s
          else (Some FileNotFoundError, fs)
      | Some Dir \<Rightarrow> (Some IsADirectoryError, fs)
      | Some (File old r w) \<Rightarrow>
          if w then store enc pf fs file_path r w s else (Some PermissionError, fs))"

section \<open>The probes\<close>

definition has_utf8_bom :: "fs \<Rightarrow> path \<Rightarrow> bool" where
  "has_utf8_bom fs file_path =
     (case read_bytes fs file_path of
        Inl e \<Rightarrow> False
      | Inr content \<Rightarrow> take 3 content = BOM_UTF8)"

definition is_text_file :: "fs \<Rightarrow> path \<Rightarrow> bool" where
  "is_text_file fs file_path =
     (case read_bytes fs file_path of
        Inl e \<Rightarrow> False
      | Inr content \<Rightarrow> if 0 \<in> set (take 1024 content) then False else True)"

section \<open>The per-file procedures\<close>

text \<open>
  Each procedure is a \<^verbatim>\<open>try\<close> body and its two handlers.  The body returns the pair the
  source returns, or the exception it raises, together with the tree as it then is.  The
  handlers turn every exception into a pair.  The \<^verbatim>\<open>verbose\<close> flag only selects console
  lines; these are the procedures with the flag off, and the section on console output
  adds it.
\<close>

definition add_bom_body :: "platform \<Rightarrow> fs \<Rightarrow> path \<Rightarrow> bool \<Rightarrow> (exn + bool \<times> string) \<times> fs" where
  "add_bom_body pf fs file_path dry_run =
     (if has_utf8_bom fs file_path then (Inr (True, ''already_has_bom''), fs)
      else if \<not> is_text_file fs file_path then (Inr (True, ''not_text_file''), fs)
      else
        (case read_text Utf8 fs file_path of
           Inl e \<Rightarrow> (Inl e, fs)
         | Inr content \<Rightarrow>
             if dry_run then (Inr (True, ''dry_run''), fs)
             else
               (case write_text Utf8Sig pf fs file_path content of
                  (Some e, fs') \<Rightarrow> (Inl e, fs')
                | (None, fs') \<Rightarrow> (Inr (True, ''bom_added''), fs'))))"

definition handlers :: "(exn + bool \<times> string) \<times> fs \<Rightarrow> (bool \<times> string) \<times> fs" where
  "handlers r =
     (case r of
        (Inr res, fs') \<Rightarrow> (res, fs')
      | (Inl UnicodeDecodeError, fs') \<Rightarrow> ((False, ''not_utf8''), fs')
      | (Inl e, fs') \<Rightarrow> ((False, ''error: '' @ str_exn e), fs'))"

definition add_bom_to_file :: "platform \<Rightarrow> fs \<Rightarrow> path \<Rightarrow> bool \<Rightarrow> (bool \<times> string) \<times> fs" where
  "add_bom_to_file pf fs file_path dry_run = handlers (add_bom_body pf fs file_path dry_run)"

definition remove_bom_body :: "platform \<Rightarrow> fs \<Rightarrow> path \<Rightarrow> bool \<Rightarrow> (exn + bool \<times> string) \<times> fs" where
  "remove_bom_body pf fs file_path dry_run =
     (if \<not> has_utf8_bom fs file_path then (Inr (True, ''no_bom''), fs)
      else if \<not> is_text_file fs file_path then (Inr (True, ''not_text_file''), fs)
      else
        (case read_text Utf8Sig fs file_path of
           Inl e \<Rightarrow> (Inl e, fs)
         | Inr content \<Rightarrow>
             if dry_run then (Inr (True, ''dry_run''), fs)
             else
               (case write_text Utf8 pf fs file_path content of
                  (Some e, fs') \<Rightarrow> (Inl e, fs')
                | (None, fs') \<Rightarrow> (Inr (True, ''bom_removed''), fs'))))"

definition remove_bom_from_file :: "platform \<Rightarrow> fs \<Rightarrow> path \<Rightarrow> bool \<Rightarrow> (bool \<times> string) \<times> fs" where
  "remove_bom_from_file pf fs file_path dry_run =
     handlers (remove_bom_body pf fs file_path dry_run)"

section \<open>The batch walker\<close>

definition startswith :: "string \<Rightarrow> string \<Rightarrow> bool" where
  "startswith s prefix = (take (length prefix) s = prefix)"

definition endswith :: "string \<Rightarrow> string \<Rightarrow> bool" where
  "endswith s suffix =
     (length suffix \<le> length s \<and> drop (length s - length suffix) s = suffix)"

text \<open>
  The two shapes of pattern the scripts hand to \<^verbatim>\<open>Path.glob\<close>: \<^verbatim>\<open>**/*\<close> and \<^verbatim>\<open>**/*.ext\<close> for
  a literal extension.  The glob yields the entries strictly below the current directory
  whose last component matches, in traversal order.
\<close>

datatype pattern = Everything | Extension string

definition matches :: "pattern \<Rightarrow> string \<Rightarrow> bool" where
  "matches pat name =
     (case pat of Everything \<Rightarrow> True | Extension ext \<Rightarrow> endswith name (''.'' @ ext))"

definition below :: "path \<Rightarrow> path \<Rightarrow> bool" where
  "below current_dir p =
     (length current_dir < length p \<and> take (length current_dir) p = current_dir)"

definition glob :: "fs \<Rightarrow> path \<Rightarrow> pattern \<Rightarrow> path list" where
  "glob fs current_dir pat =
     filter (\<lambda>p. below current_dir p \<and> matches pat (last p)) (map fst fs)"

definition is_dir :: "fs \<Rightarrow> path \<Rightarrow> bool" where
  "is_dir fs file_path = (map_of fs file_path = Some Dir)"

text \<open>\<^verbatim>\<open>any(exclude_dir in file_path.parts for exclude_dir in args.exclude_dirs)\<close>\<close>

definition excluded :: "string list \<Rightarrow> path \<Rightarrow> bool" where
  "excluded exclude_dirs file_path =
     list_ex (\<lambda>exclude_dir. exclude_dir \<in> set file_path) exclude_dirs"

text \<open>
  The statistics are the dictionary of the source.  Every key that is incremented is one
  of the literal keys the dictionary is created with.
\<close>

type_synonym stats = "string \<rightharpoonup> nat"

definition incr :: "string \<Rightarrow> stats \<Rightarrow> stats" where
  "incr key st = st(key \<mapsto> the (st key) + 1)"

definition add_stats :: stats where
  "add_stats =
     [''total_found'' \<mapsto> 0, ''bom_added'' \<mapsto> 0, ''already_has_bom'' \<mapsto> 0,
      ''not_text_file'' \<mapsto> 0, ''not_utf8'' \<mapsto> 0, ''errors'' \<mapsto> 0]"

definition remove_stats :: stats where
  "remove_stats =
     [''total_checked'' \<mapsto> 0, ''bom_removed'' \<mapsto> 0, ''no_bom'' \<mapsto> 0,
      ''not_text_file'' \<mapsto> 0, ''not_utf8'' \<mapsto> 0, ''errors'' \<mapsto> 0]"

text \<open>The \<^verbatim>\<open>if\<close>/\<^verbatim>\<open>elif\<close> chains that follow each call, after the total was incremented.\<close>

definition count_add :: "string \<Rightarrow> stats \<Rightarrow> stats" where
  "count_add result st =
     (if result = ''bom_added'' then incr ''bom_added'' st
      else if result = ''already_has_bom'' then incr ''already_has_bom'' st
      else if result = ''not_text_file'' then incr ''not_text_file'' st
      else if startswith result ''not_utf8'' then incr ''not_utf8'' st
      else if startswith result ''error'' then incr ''errors'' st
      else st)"

definition count_remove :: "string \<Rightarrow> stats \<Rightarrow> stats" where
  "count_remove result st =
     (if result = ''bom_removed'' then incr ''bom_removed'' st
      else if result = ''no_bom'' then incr ''no_bom'' st
      else if result = ''not_text_file'' then incr ''not_text_file'' st
      else if startswith result ''not_utf8'' then incr ''not_utf8'' st
      else if startswith result ''error'' then incr ''errors'' st
      else st)"

text \<open>
  The state of a run: the tree, the statistics, and the calls made to the per-file
  procedure so far (the path and the result string of each, which is also what the
  verbose console lines report).
\<close>

record state =
  files :: fs
  stats :: stats
  calls :: "(path \<times> string) list"

text \<open>
  The inner loop over the paths of one pattern and the outer loop over the patterns.  The
  two scripts have the same loops; they differ in the procedure called, in the name of the
  total and in the chain that counts the result.  \<^verbatim>\<open>Path.glob\<close> yields its paths while the
  loop body rewrites files; the outer loop lists the paths of a pattern when it reaches the
  pattern, the inner loop looks at the tree as it is when it reaches a path.  A rewrite
  changes neither the names nor the kinds of the entries, so the listing does not depend
  on when it is made (\<open>glob_keys\<close>, \<open>add_keys\<close>, \<open>remove_keys\<close> below).
\<close>

fun visit ::
  "(fs \<Rightarrow> path \<Rightarrow> (bool \<times> string) \<times> fs) \<Rightarrow> (string \<Rightarrow> stats \<Rightarrow> stats) \<Rightarrow> string list
     \<Rightarrow> path list \<Rightarrow> state \<Rightarrow> state" where
  "visit proc count exclude_dirs [] s = s"
| "visit proc count exclude_dirs (file_path # rest) s =
     (if is_dir (files s) file_path then visit proc count exclude_dirs rest s
      else if excluded exclude_dirs file_path then visit proc count exclude_dirs rest s
      else
        (case proc (files s) file_path of
           ((success, result), fs') \<Rightarrow>
             visit proc count exclude_dirs rest
               \<lparr>files = fs', stats = count result (stats s),
                calls = calls s @ [(file_path, result)]\<rparr>))"

fun scan ::
  "(fs \<Rightarrow> path \<Rightarrow> (bool \<times> string) \<times> fs) \<Rightarrow> (string \<Rightarrow> stats \<Rightarrow> stats) \<Rightarrow> string list
     \<Rightarrow> path \<Rightarrow> pattern list \<Rightarrow> state \<Rightarrow> state" where
  "scan proc count exclude_dirs current_dir [] s = s"
| "scan proc count exclude_dirs current_dir (pat # rest) s =
     scan proc count exclude_dirs current_dir rest
       (visit proc count exclude_dirs (glob (files s) current_dir pat) s)"

text \<open>\<^verbatim>\<open>main\<close> of \<^verbatim>\<open>utf-8+bom.py\<close>; the result is the state when the summary is printed.\<close>

definition main_add ::
  "platform \<Rightarrow> path \<Rightarrow> bool \<Rightarrow> string list \<Rightarrow> string list \<Rightarrow> fs \<Rightarrow> state" where
  "main_add pf current_dir dry_run extensions exclude_dirs fs =
     scan (\<lambda>fs' file_path. add_bom_to_file pf fs' file_path dry_run)
       (\<lambda>result st. count_add result (incr ''total_found'' st))
       exclude_dirs current_dir (map Extension extensions)
       \<lparr>files = fs, stats = add_stats, calls = []\<rparr>"

text \<open>
  \<^verbatim>\<open>main\<close> of \<^verbatim>\<open>utf-8-bom.py\<close>; \<^verbatim>\<open>--extensions\<close> is optional there, and without it the single
  pattern is \<^verbatim>\<open>**/*\<close>.
\<close>

definition patterns :: "string list option \<Rightarrow> pattern list" where
  "patterns extensions =
     (case extensions of
        None \<Rightarrow> [Everything]
      | Some exts \<Rightarrow> if exts = [] then [Everything] else map Extension exts)"

definition main_remove ::
  "platform \<Rightarrow> path \<Rightarrow> bool \<Rightarrow> string list option \<Rightarrow> string list \<Rightarrow> fs \<Rightarrow> state" where
  "main_remove pf current_dir dry_run extensions exclude_dirs fs =
     scan (\<lambda>fs' file_path. remove_bom_from_file pf fs' file_path dry_run)
       (\<lambda>result st. count_remove result (incr ''total_checked'' st))
       exclude_dirs current_dir (patterns extensions)
       \<lparr>files = fs, stats = remove_stats, calls = []\<rparr>"

section \<open>Console output and the failures of the runtime\<close>

text \<open>
  The definitions above are the two scripts with \<^verbatim>\<open>verbose\<close> off, on a console that prints
  every line and a tree whose entries can all be inspected.  This section adds what they
  leave out: the \<^verbatim>\<open>verbose\<close> parameter with the prints of the procedures, the prints of
  \<^verbatim>\<open>main\<close>, and \<^verbatim>\<open>Path.glob\<close> and \<^verbatim>\<open>Path.is_dir\<close> as the runtime provides them.  Each of
  these can raise, and here an exception can leave a procedure and end the run.

  The lines the scripts print, by kind.  The first five are the lines of the per-file
  procedures (a skip with its reason, the dry-run notice, the success line with its check
  mark, and the two failure lines with their cross); the others are the lines of \<^verbatim>\<open>main\<close>
  before the loops and in the summary.
\<close>

datatype line =
    Skipped path string | Would_change path | Succeeded path | Decode_failed path
  | Failed path string
  | Scan_dir path | File_types "string list" | All_files | Exclude_dirs "string list"
  | Dry_banner | Rule | Summary_title | Count string nat | Dry_summary nat


text \<open>
  What the runtime decides: whether \<^verbatim>\<open>print\<close> can write a line (the encoding of the standard
  output can encode it), what \<^verbatim>\<open>Path.glob\<close> yields for a pattern string or which exception it
  raises, and what \<^verbatim>\<open>Path.is_dir\<close> answers or raises (it passes on errors such as a denied
  permission).
\<close>

record runtime =
  can_print :: "line \<Rightarrow> bool"
  path_glob :: "fs \<Rightarrow> path \<Rightarrow> string \<Rightarrow> exn + path list"
  path_is_dir :: "fs \<Rightarrow> path \<Rightarrow> exn + bool"

text \<open>
  \<^verbatim>\<open>print(line)\<close> raises \<^verbatim>\<open>UnicodeEncodeError\<close> when the console cannot take the line;
  \<^verbatim>\<open>say\<close> is \<^verbatim>\<open>if verbose: print(line)\<close>.  What was printed is not recorded, only whether
  printing raised.
\<close>

definition print_line :: "runtime \<Rightarrow> line \<Rightarrow> exn option" where
  "print_line rt l = (if can_print rt l then None else Some UnicodeEncodeError)"

fun print_lines :: "runtime \<Rightarrow> line list \<Rightarrow> exn option" where
  "print_lines rt [] = None"
| "print_lines rt (l # ls) =
     (case print_line rt l of Some e \<Rightarrow> Some e | None \<Rightarrow> print_lines rt ls)"














section \<open>Facts about the probes and the per-file procedures\<close>

lemma has_bom_read:
  "read_bytes fs p = Inr content \<Longrightarrow> has_utf8_bom fs p = (take 3 content = BOM_UTF8)"
  by (simp add: has_utf8_bom_def)

lemma is_text_read:
  "read_bytes fs p = Inr content \<Longrightarrow> is_text_file fs p = (0 \<notin> set (take 1024 content))"
  by (simp add: is_text_file_def)

lemma take3_bom:
  "(take 3 content = BOM_UTF8) =
   (3 \<le> length content \<and> content ! 0 = 0xEF \<and> content ! 1 = 0xBB \<and> content ! 2 = 0xBF)"
proof (cases content)
  case Nil
  then show ?thesis by (simp add: BOM_UTF8_def)
next
  case c1: (Cons a as)
  show ?thesis
  proof (cases as)
    case Nil
    with c1 show ?thesis by (simp add: BOM_UTF8_def)
  next
    case c2: (Cons b bs)
    show ?thesis
    proof (cases bs)
      case Nil
      with c1 c2 show ?thesis by (simp add: BOM_UTF8_def)
    next
      case (Cons c cs)
      with c1 c2 show ?thesis by (auto simp add: BOM_UTF8_def)
    qed
  qed
qed

subsection \<open>What a rewrite can change in the tree\<close>

lemma update_keys_present:
  "map_of fs p = Some v \<Longrightarrow> map fst (AList.update p v' fs) = map fst fs"
  by (simp add: update_keys map_of_eq_None_iff[symmetric] del: map_of_eq_None_iff)

lemma write_text_keys:
  "map_of fs p = Some (File c r w) \<Longrightarrow> map fst (snd (write_text enc pf fs p s)) = map fst fs"
  by (simp add: write_text_def store_def update_keys_present split: option.splits)

lemma write_text_other:
  "q \<noteq> p \<Longrightarrow> map_of (snd (write_text enc pf fs p s)) q = map_of fs q"
  by (simp add: write_text_def store_def update_conv' split: option.splits node.splits)

lemma write_text_is_dir:
  "map_of fs p = Some (File c r w) \<Longrightarrow> is_dir (snd (write_text enc pf fs p s)) q = is_dir fs q"
  by (simp add: write_text_def store_def update_conv' is_dir_def split: option.splits)

lemma read_text_file:
  "read_text enc fs p = Inr s \<Longrightarrow> \<exists>c w. map_of fs p = Some (File c True w)"
  by (auto simp: read_text_def read_bytes_def split: sum.splits option.splits node.splits if_splits)

lemma handlers_snd: "snd (handlers r) = snd r"
  by (auto simp: handlers_def split: prod.splits sum.splits exn.splits)

lemma snd_outcome:
  "snd (case w of (Some e, fs') \<Rightarrow> (Inl e, fs') | (None, fs') \<Rightarrow> (Inr r, fs')) = snd w"
  by (auto split: prod.splits option.splits)

lemma add_body_cases:
  "snd (add_bom_body pf fs p d) = fs \<or>
   (\<exists>c w s. map_of fs p = Some (File c True w) \<and>
      snd (add_bom_body pf fs p d) = snd (write_text Utf8Sig pf fs p s))"
proof (cases "read_text Utf8 fs p")
  case (Inl e)
  then show ?thesis by (simp add: add_bom_body_def)
next
  case (Inr s)
  from read_text_file[OF this] obtain c w where "map_of fs p = Some (File c True w)"
    by blast
  with Inr show ?thesis
    by (auto simp: add_bom_body_def snd_outcome)
qed

lemma remove_body_cases:
  "snd (remove_bom_body pf fs p d) = fs \<or>
   (\<exists>c w s. map_of fs p = Some (File c True w) \<and>
      snd (remove_bom_body pf fs p d) = snd (write_text Utf8 pf fs p s))"
proof (cases "read_text Utf8Sig fs p")
  case (Inl e)
  then show ?thesis by (simp add: remove_bom_body_def)
next
  case (Inr s)
  from read_text_file[OF this] obtain c w where "map_of fs p = Some (File c True w)"
    by blast
  with Inr show ?thesis
    by (auto simp: remove_bom_body_def snd_outcome)
qed

lemma add_keys: "map fst (snd (add_bom_to_file pf fs p d)) = map fst fs"
  using add_body_cases[of pf fs p d]
  by (auto simp: add_bom_to_file_def handlers_snd write_text_keys)

lemma add_is_dir: "is_dir (snd (add_bom_to_file pf fs p d)) q = is_dir fs q"
  using add_body_cases[of pf fs p d]
  by (auto simp: add_bom_to_file_def handlers_snd write_text_is_dir)

lemma add_other: "q \<noteq> p \<Longrightarrow> map_of (snd (add_bom_to_file pf fs p d)) q = map_of fs q"
  using add_body_cases[of pf fs p d]
  by (auto simp: add_bom_to_file_def handlers_snd write_text_other)

lemma remove_keys: "map fst (snd (remove_bom_from_file pf fs p d)) = map fst fs"
  using remove_body_cases[of pf fs p d]
  by (auto simp: remove_bom_from_file_def handlers_snd write_text_keys)

lemma remove_is_dir: "is_dir (snd (remove_bom_from_file pf fs p d)) q = is_dir fs q"
  using remove_body_cases[of pf fs p d]
  by (auto simp: remove_bom_from_file_def handlers_snd write_text_is_dir)

lemma remove_other: "q \<noteq> p \<Longrightarrow> map_of (snd (remove_bom_from_file pf fs p d)) q = map_of fs q"
  using remove_body_cases[of pf fs p d]
  by (auto simp: remove_bom_from_file_def handlers_snd write_text_other)

lemma add_dry: "snd (add_bom_to_file pf fs p True) = fs"
  by (auto simp: add_bom_to_file_def handlers_snd add_bom_body_def split: sum.splits)

lemma remove_dry: "snd (remove_bom_from_file pf fs p True) = fs"
  by (auto simp: remove_bom_from_file_def handlers_snd remove_bom_body_def split: sum.splits)

subsection \<open>The results a procedure can return\<close>







lemma add_dry_outcome:
  "snd (fst (add_bom_to_file pf fs p True)) \<noteq> ''bom_added''"
  by (auto simp: add_bom_to_file_def add_bom_body_def handlers_def
      split: sum.splits prod.splits option.splits exn.splits)

lemma remove_dry_outcome:
  "snd (fst (remove_bom_from_file pf fs p True)) \<noteq> ''bom_removed''"
  by (auto simp: remove_bom_from_file_def remove_bom_body_def handlers_def
      split: sum.splits prod.splits option.splits exn.splits)

section \<open>Facts about the walker\<close>

subsection \<open>The counting chains\<close>

lemma count_add_total:
  "count_add r (incr ''total_found'' st) ''total_found'' = Some (Suc (the (st ''total_found'')))"
  by (simp add: count_add_def incr_def)

lemma count_remove_total:
  "count_remove r (incr ''total_checked'' st) ''total_checked'' =
   Some (Suc (the (st ''total_checked'')))"
  by (simp add: count_remove_def incr_def)

lemma count_add_other:
  "r \<noteq> ''bom_added'' \<Longrightarrow> count_add r (incr ''total_found'' st) ''bom_added'' = st ''bom_added''"
  by (simp add: count_add_def incr_def)

lemma count_remove_other:
  "r \<noteq> ''bom_removed'' \<Longrightarrow>
   count_remove r (incr ''total_checked'' st) ''bom_removed'' = st ''bom_removed''"
  by (simp add: count_remove_def incr_def)




subsection \<open>The loops\<close>

lemma glob_keys: "map fst fs' = map fst fs \<Longrightarrow> glob fs' current_dir pat = glob fs current_dir pat"
  by (simp add: glob_def)

lemma visit_keys:
  assumes "\<And>fs p. map fst (snd (proc fs p)) = map fst fs"
  shows "map fst (files (visit proc count excl ps s)) = map fst (files s)"
proof (induction ps arbitrary: s)
  case Nil
  show ?case by simp
next
  case (Cons p ps)
  show ?case
    using assms[of "files s" p] by (auto simp: Cons.IH split: prod.splits)
qed

lemma visit_is_dir:
  assumes "\<And>fs p q. is_dir (snd (proc fs p)) q = is_dir fs q"
  shows "is_dir (files (visit proc count excl ps s)) q = is_dir (files s) q"
proof (induction ps arbitrary: s)
  case Nil
  show ?case by simp
next
  case (Cons p ps)
  show ?case
    using assms[of "files s" p q] by (auto simp: Cons.IH split: prod.splits)
qed

lemma visit_calls:
  assumes "\<And>fs p q. is_dir (snd (proc fs p)) q = is_dir fs q"
  shows "map fst (calls (visit proc count excl ps s)) =
         map fst (calls s) @ filter (\<lambda>p. \<not> is_dir (files s) p \<and> \<not> excluded excl p) ps"
proof (induction ps arbitrary: s)
  case Nil
  show ?case by simp
next
  case (Cons p ps)
  have "\<And>q. is_dir (snd (proc (files s) p)) q = is_dir (files s) q"
    by (rule assms)
  then show ?case
    by (auto simp: Cons.IH split: prod.splits)
qed

lemma visit_total:
  assumes "\<And>r st. count r st key = Some (Suc (the (st key)))"
    and "stats s key = Some (n + length (calls s))"
  shows "stats (visit proc count excl ps s) key =
         Some (n + length (calls (visit proc count excl ps s)))"
  using assms(2)
proof (induction ps arbitrary: s)
  case Nil
  then show ?case by simp
next
  case (Cons p ps)
  then show ?case
    by (auto simp: assms(1) split: prod.splits)
qed

lemma visit_excluded_untouched:
  assumes "\<And>fs p q. q \<noteq> p \<Longrightarrow> map_of (snd (proc fs p)) q = map_of fs q"
    and "excluded excl q"
  shows "map_of (files (visit proc count excl ps s)) q = map_of (files s) q"
proof (induction ps arbitrary: s)
  case Nil
  show ?case by simp
next
  case (Cons p ps)
  show ?case
  proof (cases "is_dir (files s) p \<or> excluded excl p")
    case True
    then show ?thesis by (auto simp: Cons.IH)
  next
    case False
    with assms(2) have "q \<noteq> p" by auto
    from assms(1)[OF this, of "files s"] False show ?thesis
      by (auto simp: Cons.IH split: prod.splits)
  qed
qed

lemma scan_keys:
  assumes "\<And>fs p. map fst (snd (proc fs p)) = map fst fs"
  shows "map fst (files (scan proc count excl cwd pats s)) = map fst (files s)"
  by (induction pats arbitrary: s) (simp_all add: visit_keys[OF assms])

lemma scan_is_dir:
  assumes "\<And>fs p q. is_dir (snd (proc fs p)) q = is_dir fs q"
  shows "is_dir (files (scan proc count excl cwd pats s)) q = is_dir (files s) q"
  by (induction pats arbitrary: s) (simp_all add: visit_is_dir[OF assms])

lemma scan_calls:
  assumes k: "\<And>fs p. map fst (snd (proc fs p)) = map fst fs"
    and d: "\<And>fs p q. is_dir (snd (proc fs p)) q = is_dir fs q"
  shows "map fst (calls (scan proc count excl cwd pats s)) =
         map fst (calls s) @
         concat (map (\<lambda>pat. filter (\<lambda>p. \<not> is_dir (files s) p \<and> \<not> excluded excl p)
                        (glob (files s) cwd pat)) pats)"
proof (induction pats arbitrary: s)
  case Nil
  show ?case by simp
next
  case (Cons pat pats)
  let ?s = "visit proc count excl (glob (files s) cwd pat) s"
  have g: "\<And>pat'. glob (files ?s) cwd pat' = glob (files s) cwd pat'"
    by (rule glob_keys) (rule visit_keys[OF k])
  have i: "\<And>q. is_dir (files ?s) q = is_dir (files s) q"
    by (rule visit_is_dir[OF d])
  show ?case
    by (simp add: Cons.IH g i visit_calls[OF d])
qed

lemma scan_total:
  assumes "\<And>r st. count r st key = Some (Suc (the (st key)))"
    and "stats s key = Some (n + length (calls s))"
  shows "stats (scan proc count excl cwd pats s) key =
         Some (n + length (calls (scan proc count excl cwd pats s)))"
  using assms(2)
proof (induction pats arbitrary: s)
  case Nil
  then show ?case by simp
next
  case (Cons pat pats)
  have "stats (visit proc count excl (glob (files s) cwd pat) s) key =
        Some (n + length (calls (visit proc count excl (glob (files s) cwd pat) s)))"
    by (rule visit_total) (rule assms(1), rule Cons.prems)
  then show ?case
    by (simp add: Cons.IH)
qed

lemma scan_excluded_untouched:
  assumes "\<And>fs p q. q \<noteq> p \<Longrightarrow> map_of (snd (proc fs p)) q = map_of fs q"
    and "excluded excl q"
  shows "map_of (files (scan proc count excl cwd pats s)) q = map_of (files s) q"
  by (induction pats arbitrary: s) (simp_all add: visit_excluded_untouched[OF assms])

lemma visit_unchanged:
  assumes "\<And>fs p. snd (proc fs p) = fs"
  shows "files (visit proc count excl ps s) = files s"
proof (induction ps arbitrary: s)
  case Nil
  show ?case by simp
next
  case (Cons p ps)
  show ?case
    using assms[of "files s" p] by (auto simp: Cons.IH split: prod.splits)
qed

lemma scan_unchanged:
  assumes "\<And>fs p. snd (proc fs p) = fs"
  shows "files (scan proc count excl cwd pats s) = files s"
  by (induction pats arbitrary: s) (simp_all add: visit_unchanged[OF assms])

lemma visit_counter_idle:
  assumes "\<And>fs p. snd (fst (proc fs p)) \<noteq> tag"
    and "\<And>r st. r \<noteq> tag \<Longrightarrow> count r st key = st key"
  shows "stats (visit proc count excl ps s) key = stats s key"
proof (induction ps arbitrary: s)
  case Nil
  show ?case by simp
next
  case (Cons p ps)
  have "\<And>a r fs'. proc (files s) p = ((a, r), fs') \<Longrightarrow> count r (stats s) key = stats s key"
    using assms(1)[of "files s" p] by (auto intro: assms(2))
  then show ?case
    by (auto simp: Cons.IH split: prod.splits)
qed

lemma scan_counter_idle:
  assumes "\<And>fs p. snd (fst (proc fs p)) \<noteq> tag"
    and "\<And>r st. r \<noteq> tag \<Longrightarrow> count r st key = st key"
  shows "stats (scan proc count excl cwd pats s) key = stats s key"
proof (induction pats arbitrary: s)
  case Nil
  show ?case by simp
next
  case (Cons pat pats)
  have "stats (visit proc count excl (glob (files s) cwd pat) s) key = stats s key"
    by (rule visit_counter_idle) (rule assms(1), rule assms(2))
  then show ?case by (simp add: Cons.IH)
qed



subsection \<open>The two scripts\<close>

lemma main_add_dry_run_files:
  "files (main_add pf cwd True exts excl fs) = fs"
  unfolding main_add_def by (simp add: scan_unchanged add_dry)

lemma main_remove_dry_run_files:
  "files (main_remove pf cwd True exts excl fs) = fs"
  unfolding main_remove_def by (simp add: scan_unchanged remove_dry)

lemma main_add_dry_run_counter:
  "stats (main_add pf cwd True exts excl fs) ''bom_added'' = Some 0"
proof -
  have "stats (main_add pf cwd True exts excl fs) ''bom_added'' = add_stats ''bom_added''"
    unfolding main_add_def
    by (subst scan_counter_idle[where tag = "''bom_added''"])
       (simp_all add: add_dry_outcome count_add_other)
  then show ?thesis by (simp add: add_stats_def)
qed

lemma main_remove_dry_run_counter:
  "stats (main_remove pf cwd True exts excl fs) ''bom_removed'' = Some 0"
proof -
  have "stats (main_remove pf cwd True exts excl fs) ''bom_removed'' = remove_stats ''bom_removed''"
    unfolding main_remove_def
    by (subst scan_counter_idle[where tag = "''bom_removed''"])
       (simp_all add: remove_dry_outcome count_remove_other)
  then show ?thesis by (simp add: remove_stats_def)
qed

lemma main_add_calls:
  "map fst (calls (main_add pf cwd d exts excl fs)) =
   concat (map (\<lambda>ext. filter (\<lambda>p. \<not> is_dir fs p \<and> \<not> excluded excl p)
                        (glob fs cwd (Extension ext))) exts)"
  unfolding main_add_def
  by (subst scan_calls) (simp_all add: add_keys add_is_dir comp_def)

lemma main_remove_calls:
  "map fst (calls (main_remove pf cwd d exts excl fs)) =
   concat (map (\<lambda>pat. filter (\<lambda>p. \<not> is_dir fs p \<and> \<not> excluded excl p)
                        (glob fs cwd pat)) (patterns exts))"
  unfolding main_remove_def
  by (subst scan_calls) (simp_all add: remove_keys remove_is_dir)

lemma main_add_total:
  "stats (main_add pf cwd d exts excl fs) ''total_found'' =
   Some (length (calls (main_add pf cwd d exts excl fs)))"
proof -
  let ?s0 = "\<lparr>files = fs, stats = add_stats, calls = []\<rparr>"
  have "stats ?s0 ''total_found'' = Some (0 + length (calls ?s0))"
    by (simp add: add_stats_def)
  then have "stats (main_add pf cwd d exts excl fs) ''total_found'' =
        Some (0 + length (calls (main_add pf cwd d exts excl fs)))"
    unfolding main_add_def by (rule scan_total[rotated]) (rule count_add_total)
  then show ?thesis by simp
qed

lemma main_remove_total:
  "stats (main_remove pf cwd d exts excl fs) ''total_checked'' =
   Some (length (calls (main_remove pf cwd d exts excl fs)))"
proof -
  let ?s0 = "\<lparr>files = fs, stats = remove_stats, calls = []\<rparr>"
  have "stats ?s0 ''total_checked'' = Some (0 + length (calls ?s0))"
    by (simp add: remove_stats_def)
  then have "stats (main_remove pf cwd d exts excl fs) ''total_checked'' =
        Some (0 + length (calls (main_remove pf cwd d exts excl fs)))"
    unfolding main_remove_def by (rule scan_total[rotated]) (rule count_remove_total)
  then show ?thesis by simp
qed

lemma main_add_untouched:
  "excluded excl p \<Longrightarrow> map_of (files (main_add pf cwd d exts excl fs)) p = map_of fs p"
  unfolding main_add_def
  by (subst scan_excluded_untouched) (simp_all add: add_other)

lemma main_remove_untouched:
  "excluded excl p \<Longrightarrow> map_of (files (main_remove pf cwd d exts excl fs)) p = map_of fs p"
  unfolding main_remove_def
  by (subst scan_excluded_untouched) (simp_all add: remove_other)



section \<open>Facts about the codec\<close>

text \<open>The code points a Python string read from a file can hold.\<close>

definition scalar :: "nat \<Rightarrow> bool" where
  "scalar c = (c < 0xD800 \<or> (0xE000 \<le> c \<and> c < 0x110000))"

subsection \<open>Arithmetic of the multi-byte forms\<close>

lemma digits2:
  fixes x y :: nat
  assumes "y < 64" and "c = x * 64 + y"
  shows "c div 64 = x" and "c mod 64 = y"
  using assms by simp_all

lemma digits3:
  fixes x y z :: nat
  assumes "y < 64" and "z < 64" and "c = x * 4096 + y * 64 + z"
  shows "c div 4096 = x" and "c div 64 mod 64 = y" and "c mod 64 = z"
proof -
  have c: "c = (x * 64 + y) * 64 + z"
    using assms(3) by simp
  have d: "c div 64 = x * 64 + y"
    using digits2(1)[OF assms(2) c] .
  show "c mod 64 = z"
    using digits2(2)[OF assms(2) c] .
  show "c div 64 mod 64 = y"
    using assms(1) by (simp add: d)
  have "c div 4096 = c div 64 div 64"
    by (simp add: div_mult2_eq[symmetric])
  then show "c div 4096 = x"
    using assms(1) by (simp add: d)
qed

lemma digits4:
  fixes w x y z :: nat
  assumes "x < 64" and "y < 64" and "z < 64" and "c = w * 262144 + x * 4096 + y * 64 + z"
  shows "c div 262144 = w" and "c div 4096 mod 64 = x" and "c div 64 mod 64 = y"
    and "c mod 64 = z"
proof -
  have c: "c = (w * 4096 + x * 64 + y) * 64 + z"
    using assms(4) by simp
  have d: "c div 64 = w * 4096 + x * 64 + y"
    using digits2(1)[OF assms(3) c] .
  show "c mod 64 = z"
    using digits2(2)[OF assms(3) c] .
  from digits3[OF assms(1) assms(2) d]
  have e: "c div 64 div 4096 = w" "c div 64 div 64 mod 64 = x" "c div 64 mod 64 = y"
    by simp_all
  show "c div 64 mod 64 = y" by (rule e(3))
  have "c div 4096 = c div 64 div 64"
    by (simp add: div_mult2_eq[symmetric])
  then show "c div 4096 mod 64 = x"
    using e(2) by simp
  have "c div 262144 = c div 64 div 4096"
    by (simp add: div_mult2_eq[symmetric])
  then show "c div 262144 = w"
    using e(1) by simp
qed

text \<open>The three- and four-byte forms, with the lead and continuation bytes as offsets.\<close>

lemma two_bytes:
  fixes n0 n1 :: nat
  assumes "0xC2 \<le> n0" "n0 < 0xE0" "0x80 \<le> n1" "n1 \<le> 0xBF"
    and c: "c = (n0 - 0xC0) * 64 + (n1 - 0x80)"
  shows "0x80 \<le> c" "c < 0x800" "0xC0 + c div 64 = n0" "0x80 + c mod 64 = n1"
proof -
  define x where "x = n0 - 0xC0"
  define y where "y = n1 - 0x80"
  have x: "n0 = 0xC0 + x" "2 \<le> x" "x < 32"
    using assms(1,2) by (simp_all add: x_def)
  have y: "n1 = 0x80 + y" "y < 64"
    using assms(3,4) by (simp_all add: y_def)
  have c': "c = x * 64 + y"
    using c by (simp add: x_def y_def)
  show "0x80 \<le> c" "c < 0x800"
    using x(2,3) y(2) by (simp_all add: c')
  show "0xC0 + c div 64 = n0" "0x80 + c mod 64 = n1"
    using digits2[OF y(2) c'] x(1) y(1) by simp_all
qed

lemma three_bytes:
  fixes n0 n1 n2 :: nat
  assumes "0xE0 \<le> n0" "n0 < 0xF0"
    and "(if n0 = 0xE0 then 0xA0 else 0x80) \<le> n1"
    and "n1 \<le> (if n0 = 0xED then 0x9F else 0xBF)"
    and "0x80 \<le> n2" "n2 \<le> 0xBF"
    and c: "c = (n0 - 0xE0) * 4096 + (n1 - 0x80) * 64 + (n2 - 0x80)"
  shows "0x800 \<le> c" "c < 0x10000" "\<not> (0xD800 \<le> c \<and> c < 0xE000)"
    "0xE0 + c div 4096 = n0" "0x80 + c div 64 mod 64 = n1" "0x80 + c mod 64 = n2"
proof -
  define x where "x = n0 - 0xE0"
  define y where "y = n1 - 0x80"
  define z where "z = n2 - 0x80"
  have x: "n0 = 0xE0 + x" "x < 16"
    using assms(1,2) by (simp_all add: x_def)
  have n1: "0x80 \<le> n1" "n1 \<le> 0xBF"
    using assms(3,4) by (simp_all split: if_splits)
  have y: "n1 = 0x80 + y" "y < 64"
    using n1 by (simp_all add: y_def)
  have z: "n2 = 0x80 + z" "z < 64"
    using assms(5,6) by (simp_all add: z_def)
  have y0: "x = 0 \<Longrightarrow> 32 \<le> y"
    using assms(3) x(1) y(1) by simp
  have y13: "x = 13 \<Longrightarrow> y < 32"
    using assms(4) x(1) y(1) by simp
  have c': "c = x * 4096 + y * 64 + z"
    using c by (simp add: x_def y_def z_def)
  show "0x800 \<le> c"
  proof (cases "x = 0")
    case True
    with y0 show ?thesis by (simp add: c')
  next
    case False
    then have "1 \<le> x" by simp
    then have "4096 \<le> x * 4096" by simp
    then show ?thesis by (simp add: c')
  qed
  have "x * 4096 \<le> 15 * 4096" "y * 64 \<le> 63 * 64"
    using x(2) y(2) by simp_all
  then show "c < 0x10000"
    using z(2) by (simp add: c')
  show "\<not> (0xD800 \<le> c \<and> c < 0xE000)"
  proof (cases "x < 13")
    case True
    then have "x * 4096 \<le> 12 * 4096" by simp
    moreover have "y * 64 \<le> 63 * 64" using y(2) by simp
    ultimately show ?thesis using z(2) by (simp add: c')
  next
    case False
    show ?thesis
    proof (cases "x = 13")
      case True
      from y13[OF True] have "y * 64 \<le> 31 * 64" by simp
      then show ?thesis using z(2) True by (simp add: c')
    next
      case False
      with \<open>\<not> x < 13\<close> have "14 \<le> x" by simp
      then have "14 * 4096 \<le> x * 4096" by simp
      then show ?thesis by (simp add: c')
    qed
  qed
  show "0xE0 + c div 4096 = n0" "0x80 + c div 64 mod 64 = n1" "0x80 + c mod 64 = n2"
    using digits3[OF y(2) z(2) c'] x(1) y(1) z(1) by simp_all
qed

lemma four_bytes:
  fixes n0 n1 n2 n3 :: nat
  assumes "0xF0 \<le> n0" "n0 < 0xF5"
    and "(if n0 = 0xF0 then 0x90 else 0x80) \<le> n1"
    and "n1 \<le> (if n0 = 0xF4 then 0x8F else 0xBF)"
    and "0x80 \<le> n2" "n2 \<le> 0xBF" "0x80 \<le> n3" "n3 \<le> 0xBF"
    and c: "c = (n0 - 0xF0) * 262144 + (n1 - 0x80) * 4096 + (n2 - 0x80) * 64 + (n3 - 0x80)"
  shows "0x10000 \<le> c" "c < 0x110000"
    "0xF0 + c div 262144 = n0" "0x80 + c div 4096 mod 64 = n1"
    "0x80 + c div 64 mod 64 = n2" "0x80 + c mod 64 = n3"
proof -
  define w where "w = n0 - 0xF0"
  define x where "x = n1 - 0x80"
  define y where "y = n2 - 0x80"
  define z where "z = n3 - 0x80"
  have w: "n0 = 0xF0 + w" "w < 5"
    using assms(1,2) by (simp_all add: w_def)
  have n1: "0x80 \<le> n1" "n1 \<le> 0xBF"
    using assms(3,4) by (simp_all split: if_splits)
  have x: "n1 = 0x80 + x" "x < 64"
    using n1 by (simp_all add: x_def)
  have y: "n2 = 0x80 + y" "y < 64"
    using assms(5,6) by (simp_all add: y_def)
  have z: "n3 = 0x80 + z" "z < 64"
    using assms(7,8) by (simp_all add: z_def)
  have x0: "w = 0 \<Longrightarrow> 16 \<le> x"
    using assms(3) w(1) x(1) by simp
  have x4: "w = 4 \<Longrightarrow> x < 16"
    using assms(4) w(1) x(1) by simp
  have c': "c = w * 262144 + x * 4096 + y * 64 + z"
    using c by (simp add: w_def x_def y_def z_def)
  show "0x10000 \<le> c"
  proof (cases "w = 0")
    case True
    from x0[OF True] have "16 * 4096 \<le> x * 4096" by simp
    then show ?thesis by (simp add: c')
  next
    case False
    then have "1 \<le> w" by simp
    then have "262144 \<le> w * 262144" by simp
    then show ?thesis by (simp add: c')
  qed
  have yz: "y * 64 \<le> 63 * 64" using y(2) by simp
  show "c < 0x110000"
  proof (cases "w = 4")
    case True
    from x4[OF True] have "x * 4096 \<le> 15 * 4096" by simp
    with yz show ?thesis using z(2) True by (simp add: c')
  next
    case False
    with w(2) have "w * 262144 \<le> 3 * 262144" by simp
    moreover have "x * 4096 \<le> 63 * 4096" using x(2) by simp
    ultimately show ?thesis using yz z(2) by (simp add: c')
  qed
  show "0xF0 + c div 262144 = n0" "0x80 + c div 4096 mod 64 = n1"
    "0x80 + c div 64 mod 64 = n2" "0x80 + c mod 64 = n3"
    using digits4[OF x(2) y(2) z(2) c'] w(1) x(1) y(1) z(1) by simp_all
qed

subsection \<open>The shapes a decoded character can have\<close>

lemma decode_char_cases:
  assumes "decode_char bs = Some (c, r)"
  obtains
    (one) b0 where "bs = b0 # r" "unat b0 < 0x80" "c = unat b0"
  | (two) b0 b1 where "bs = b0 # b1 # r" "0xC2 \<le> unat b0" "unat b0 < 0xE0"
      "0x80 \<le> unat b1" "unat b1 \<le> 0xBF"
      "c = (unat b0 - 0xC0) * 64 + (unat b1 - 0x80)"
  | (three) b0 b1 b2 where "bs = b0 # b1 # b2 # r" "0xE0 \<le> unat b0" "unat b0 < 0xF0"
      "(if unat b0 = 0xE0 then 0xA0 else 0x80) \<le> unat b1"
      "unat b1 \<le> (if unat b0 = 0xED then 0x9F else 0xBF)"
      "0x80 \<le> unat b2" "unat b2 \<le> 0xBF"
      "c = (unat b0 - 0xE0) * 4096 + (unat b1 - 0x80) * 64 + (unat b2 - 0x80)"
  | (four) b0 b1 b2 b3 where "bs = b0 # b1 # b2 # b3 # r" "0xF0 \<le> unat b0" "unat b0 < 0xF5"
      "(if unat b0 = 0xF0 then 0x90 else 0x80) \<le> unat b1"
      "unat b1 \<le> (if unat b0 = 0xF4 then 0x8F else 0xBF)"
      "0x80 \<le> unat b2" "unat b2 \<le> 0xBF" "0x80 \<le> unat b3" "unat b3 \<le> 0xBF"
      "c = (unat b0 - 0xF0) * 262144 + (unat b1 - 0x80) * 4096 + (unat b2 - 0x80) * 64
           + (unat b3 - 0x80)"
proof (cases bs)
  case Nil
  with assms show ?thesis by simp
next
  case (Cons b0 bs')
  consider "unat b0 < 0x80" | "0x80 \<le> unat b0" "unat b0 < 0xC2"
    | "0xC2 \<le> unat b0" "unat b0 < 0xE0" | "0xE0 \<le> unat b0" "unat b0 < 0xF0"
    | "0xF0 \<le> unat b0" "unat b0 < 0xF5" | "0xF5 \<le> unat b0"
    by linarith
  then show ?thesis
  proof cases
    case 1
    with assms Cons one show ?thesis by (simp add: Let_def)
  next
    case 2
    with assms Cons show ?thesis by (simp add: Let_def)
  next
    case 3
    with assms Cons two show ?thesis
      by (simp add: Let_def in_range_def low6_def split: list.splits if_splits)
  next
    case 4
    with assms Cons three show ?thesis
      by (simp add: Let_def in_range_def low6_def split: list.splits if_splits)
  next
    case 5
    with assms Cons four show ?thesis
      by (simp add: Let_def in_range_def low6_def split: list.splits if_splits)
  next
    case 6
    with assms Cons show ?thesis by (simp add: Let_def)
  qed
qed

subsection \<open>Decoding yields scalar values, and encoding them gives the bytes back\<close>

lemma byte_of_unat: "of_nat (unat b) = (b :: byte)"
  by simp

lemma decode_char_encode:
  assumes "decode_char bs = Some (c, r)"
  shows "scalar c \<and> (\<exists>pre. encode_char c = Some pre \<and> bs = pre @ r)"
  using assms
proof (cases rule: decode_char_cases)
  case (one b0)
  then show ?thesis by (simp add: encode_char_def scalar_def)
next
  case (two b0 b1)
  note f = two_bytes[OF two(2-6)]
  from f(1,2) have "encode_char c = Some [of_nat (0xC0 + c div 64), of_nat (0x80 + c mod 64)]"
    by (simp add: encode_char_def)
  then have "encode_char c = Some [b0, b1]"
    by (simp only: f(3,4) byte_of_unat)
  with f(2) two(1) show ?thesis
    by (simp add: scalar_def)
next
  case (three b0 b1 b2)
  note f = three_bytes[OF three(2-8)]
  from f(1,2,3) have "encode_char c =
      Some [of_nat (0xE0 + c div 4096), of_nat (0x80 + c div 64 mod 64), of_nat (0x80 + c mod 64)]"
    by (simp add: encode_char_def)
  then have "encode_char c = Some [b0, b1, b2]"
    by (simp only: f(4,5,6) byte_of_unat)
  moreover from f(2,3) have "scalar c"
    by (auto simp: scalar_def)
  ultimately show ?thesis
    using three(1) by simp
next
  case (four b0 b1 b2 b3)
  note f = four_bytes[OF four(2-10)]
  from f(1,2) have "encode_char c =
      Some [of_nat (0xF0 + c div 262144), of_nat (0x80 + c div 4096 mod 64),
            of_nat (0x80 + c div 64 mod 64), of_nat (0x80 + c mod 64)]"
    by (simp add: encode_char_def)
  then have "encode_char c = Some [b0, b1, b2, b3]"
    by (simp only: f(3,4,5,6) byte_of_unat)
  moreover from f(1,2) have "scalar c"
    by (simp add: scalar_def)
  ultimately show ?thesis
    using four(1) by simp
qed

lemma utf_8_decode_Cons:
  assumes "utf_8_decode (b # bs) = Some s"
  obtains c r s' where "decode_char (b # bs) = Some (c, r)" "utf_8_decode r = Some s'"
    "s = c # s'"
  using assms by (auto simp del: decode_char.simps split: option.splits)

lemma utf_8_decode_encode:
  "utf_8_decode bs = Some s \<Longrightarrow> list_all scalar s \<and> utf_8_encode s = Some bs"
proof (induction bs arbitrary: s rule: utf_8_decode.induct)
  case 1
  then show ?case by simp
next
  case (2 b bs)
  from "2.prems" obtain c r s' where
    d: "decode_char (b # bs) = Some (c, r)" and t: "utf_8_decode r = Some s'" and s: "s = c # s'"
    by (rule utf_8_decode_Cons)
  from decode_char_encode[OF d] obtain pre where
    e: "scalar c" "encode_char c = Some pre" "b # bs = pre @ r"
    by blast
  from "2.IH"[OF d refl t] e s show ?case
    by simp
qed



section \<open>Facts about text mode\<close>





lemma universal_newlines_no_cr:
  "13 \<notin> set s \<Longrightarrow> universal_newlines s = s"
  by (induction s) auto

lemma write_newlines_posix: "write_newlines Posix s = s"
  by (induction s) (auto simp: write_newlines_def linesep_def)







text \<open>A carriage return in the text is a byte 0D of the file.\<close>

lemma utf_8_encode_ascii:
  "utf_8_encode s = Some bs \<Longrightarrow> c \<in> set s \<Longrightarrow> c < 0x80 \<Longrightarrow> of_nat c \<in> set bs"
proof (induction s arbitrary: bs)
  case Nil
  then show ?case by simp
next
  case (Cons a s)
  from Cons.prems(1) obtain pre bs' where
    e: "encode_char a = Some pre" "utf_8_encode s = Some bs'" "bs = pre @ bs'"
    by (auto split: option.splits)
  show ?case
  proof (cases "c = a")
    case True
    with e(1) Cons.prems(3) have "pre = [of_nat c]" by (simp add: encode_char_def)
    with e(3) show ?thesis by simp
  next
    case False
    with Cons.prems(2) have "c \<in> set s" by simp
    from Cons.IH[OF e(2) this Cons.prems(3)] e(3) show ?thesis by simp
  qed
qed

lemma decoded_cr:
  assumes "utf_8_decode bs = Some s" and "0x0D \<notin> set bs"
  shows "13 \<notin> set s"
proof
  assume m: "13 \<in> set s"
  from utf_8_decode_encode[OF assms(1)] have e: "utf_8_encode s = Some bs"
    by simp
  have "of_nat 13 \<in> set bs"
    by (rule utf_8_encode_ascii[OF e m]) simp
  with assms(2) show False by simp
qed

lemma take_bom_prefix: "take 3 (BOM_UTF8 @ bs) = BOM_UTF8"
  by (simp add: BOM_UTF8_def)

lemma drop_bom_prefix: "drop 3 (BOM_UTF8 @ bs) = bs"
  by (simp add: BOM_UTF8_def)

lemma zero_free_bom:
  "0 \<notin> set (take 1024 content) \<Longrightarrow> 0 \<notin> set (take 1024 (BOM_UTF8 @ content))"
proof -
  assume z: "0 \<notin> set (take 1024 content)"
  have "take 1024 (BOM_UTF8 @ content) = BOM_UTF8 @ take 1021 content"
    by (simp add: BOM_UTF8_def)
  moreover have "set (take 1021 content) \<subseteq> set (take 1024 content)"
    by (rule set_take_subset_set_take) simp
  ultimately show ?thesis
    using z by (auto simp: BOM_UTF8_def)
qed

section \<open>What a real run writes\<close>


lemma read_bytes_file:
  "map_of fs p = Some (File content True w) \<Longrightarrow> read_bytes fs p = Inr content"
  by (simp add: read_bytes_def)

lemma add_bom_writes:
  assumes f: "map_of fs p = Some (File content True True)"
    and b: "take 3 content \<noteq> BOM_UTF8"
    and z: "0 \<notin> set (take 1024 content)"
    and d: "utf_8_decode content = Some s"
    and e: "utf_8_encode (write_newlines pf (universal_newlines s)) = Some out"
  shows "add_bom_to_file pf fs p False =
           ((True, ''bom_added''), AList.update p (File (BOM_UTF8 @ out) True True) fs)"
proof -
  note rd = read_bytes_file[OF f]
  have nb: "\<not> has_utf8_bom fs p"
    using b by (simp add: has_bom_read[OF rd])
  have tx: "is_text_file fs p"
    using z by (simp add: is_text_read[OF rd])
  have rt: "read_text Utf8 fs p = Inr (universal_newlines s)"
    by (simp add: read_text_def rd decode_def d)
  have wr: "write_text Utf8Sig pf fs p (universal_newlines s) =
              (None, AList.update p (File (BOM_UTF8 @ out) True True) fs)"
    by (simp add: write_text_def store_def encode_def f e)
  show ?thesis
    by (simp add: add_bom_to_file_def add_bom_body_def handlers_def nb tx rt wr)
qed

lemma remove_bom_writes:
  assumes f: "map_of fs p = Some (File (BOM_UTF8 @ body) True True)"
    and z: "0 \<notin> set (take 1024 (BOM_UTF8 @ body))"
    and d: "utf_8_decode body = Some s"
    and e: "utf_8_encode (write_newlines pf (universal_newlines s)) = Some out"
  shows "remove_bom_from_file pf fs p False =
           ((True, ''bom_removed''), AList.update p (File out True True) fs)"
proof -
  note rd = read_bytes_file[OF f]
  have hb: "has_utf8_bom fs p"
    unfolding has_bom_read[OF rd] by (rule take_bom_prefix)
  have tx: "is_text_file fs p"
    using z by (simp add: is_text_read[OF rd])
  have "decode Utf8Sig (BOM_UTF8 @ body) = utf_8_decode body"
    unfolding decode_def by (simp only: take_bom_prefix drop_bom_prefix encoding.case refl if_True)
  then have "decode Utf8Sig (BOM_UTF8 @ body) = Some s"
    by (simp only: d)
  then have rt: "read_text Utf8Sig fs p = Inr (universal_newlines s)"
    by (simp add: read_text_def rd)
  have wr: "write_text Utf8 pf fs p (universal_newlines s) =
              (None, AList.update p (File out True True) fs)"
    by (simp add: write_text_def store_def encode_def f e)
  show ?thesis
    by (simp add: remove_bom_from_file_def remove_bom_body_def handlers_def hb tx rt wr)
qed

text \<open>
  Where the round trip does hold: on POSIX, for a file without a BOM, without a zero byte
  in its first 1024 bytes, that is valid UTF-8 and holds no carriage return, Add-BOM puts
  the three bytes in front of the content and Remove-BOM gives the tree back.
\<close>

lemma round_trip_posix_without_cr:
  assumes f: "map_of fs p = Some (File content True True)"
    and b: "take 3 content \<noteq> BOM_UTF8"
    and z: "0 \<notin> set (take 1024 content)"
    and d: "utf_8_decode content = Some s"
    and c: "0x0D \<notin> set content"
  shows "add_bom_to_file Posix fs p False =
           ((True, ''bom_added''), AList.update p (File (BOM_UTF8 @ content) True True) fs)"
    and "remove_bom_from_file Posix (snd (add_bom_to_file Posix fs p False)) p False =
           ((True, ''bom_removed''), fs)"
proof -
  from decoded_cr[OF d c] have n: "universal_newlines s = s"
    by (rule universal_newlines_no_cr)
  from utf_8_decode_encode[OF d] have e:
    "utf_8_encode (write_newlines Posix (universal_newlines s)) = Some content"
    by (simp add: n write_newlines_posix)
  show a: "add_bom_to_file Posix fs p False =
           ((True, ''bom_added''), AList.update p (File (BOM_UTF8 @ content) True True) fs)"
    by (rule add_bom_writes[OF f b z d e])
  let ?fs = "AList.update p (File (BOM_UTF8 @ content) True True) fs"
  have f': "map_of ?fs p = Some (File (BOM_UTF8 @ content) True True)"
    by (simp add: update_conv')
  have "remove_bom_from_file Posix ?fs p False =
          ((True, ''bom_removed''), AList.update p (File content True True) ?fs)"
    by (rule remove_bom_writes[OF f' zero_free_bom[OF z] d e])
  moreover have "AList.update p (File content True True) ?fs = fs"
    by (simp add: update_triv[OF f])
  ultimately show "remove_bom_from_file Posix (snd (add_bom_to_file Posix fs p False)) p False =
           ((True, ''bom_removed''), fs)"
    by (simp add: a)
qed

section \<open>Facts about console output\<close>


lemma print_lines_accepted:
  "(\<forall>l. can_print rt l) \<Longrightarrow> print_lines rt ls = None"
  by (induction ls) (simp_all add: print_line_def)













section \<open>Concrete trees and evaluation\<close>

lemmas per_file_simps =
  add_bom_to_file_def add_bom_body_def remove_bom_from_file_def remove_bom_body_def
  handlers_def has_utf8_bom_def is_text_file_def read_text_def read_bytes_def write_text_def
  store_def decode_def encode_def BOM_UTF8_def write_newlines_def linesep_def encode_char_def
  in_range_def low6_def Let_def

lemmas walker_simps =
  main_add_def main_remove_def patterns_def glob_def below_def matches_def endswith_def
  startswith_def is_dir_def excluded_def count_add_def count_remove_def incr_def
  add_stats_def remove_stats_def

text \<open>The defaults of \<^verbatim>\<open>--extensions\<close> (add mode) and \<^verbatim>\<open>--exclude-dirs\<close>.\<close>

definition default_extensions :: "string list" where
  "default_extensions = [''cu'', ''c'', ''cpp'', ''h'', ''txt'', ''md'', ''mk'', ''cuh'']"

definition default_exclude_dirs :: "string list" where
  "default_exclude_dirs = [''.git'', ''__pycache__'', ''node_modules'', ''venv'']"

text \<open>A working directory \<^verbatim>\<open>/w\<close> that holds \<^verbatim>\<open>readme.md\<close> with the ASCII content \<^verbatim>\<open>hello\<close>.\<close>

definition readme_tree :: fs where
  "readme_tree =
     [([''/''], Dir), ([''/'', ''w''], Dir),
      ([''/'', ''w'', ''readme.md''], File [0x68, 0x65, 0x6C, 0x6C, 0x6F] True True)]"

text \<open>The same directory with a second copy of the file under \<^verbatim>\<open>.git\<close>.\<close>

definition git_tree :: fs where
  "git_tree =
     [([''/''], Dir), ([''/'', ''w''], Dir), ([''/'', ''w'', ''.git''], Dir),
      ([''/'', ''w'', ''.git'', ''notes.md''], File [0x68, 0x65, 0x6C, 0x6C, 0x6F] True True),
      ([''/'', ''w'', ''readme.md''], File [0x68, 0x65, 0x6C, 0x6C, 0x6F] True True)]"

text \<open>A tree of one file with the given bytes, readable and writable.\<close>

definition one_file :: "bytes \<Rightarrow> fs" where
  "one_file content = [([''/'', ''w'', ''a.txt''], File content True True)]"




section \<open>The claims\<close>

subsection \<open>Dry runs\<close>

text \<open>
  A dry run changes no file, whatever the tree (\<open>main_add_dry_run_files\<close>,
  \<open>main_remove_dry_run_files\<close>); but the counter that the closing line of a dry run prints,
  \<^verbatim>\<open>stats['bom_added']\<close> (or \<^verbatim>\<open>stats['bom_removed']\<close>), stays at zero on every tree
  (\<open>main_add_dry_run_counter\<close>, \<open>main_remove_dry_run_counter\<close>), because the result string
  \<^verbatim>\<open>"dry_run"\<close> matches no branch of the counting chain.
\<close>

text \<open>
  C1: For every directory tree, a dry-run invocation leaves every file's bytes unchanged,
  and its modification-outcome counters equal what a real invocation on the same tree
  would have counted as files to change (the dry-run summary's \<^verbatim>\<open>bom_added\<close> equals the
  number of files a real run reports as added).  The code does not do the second half: on
  the tree that holds only \<^verbatim>\<open>readme.md\<close> = \<^verbatim>\<open>hello\<close>, with the default arguments, the dry run
  leaves the tree as it was, calls the procedure once with result \<^verbatim>\<open>dry_run\<close>, and ends with
  \<^verbatim>\<open>bom_added\<close> = 0, while the real run ends with \<^verbatim>\<open>bom_added\<close> = 1.
\<close>

theorem dry_run_counts_no_bom_added:
  "files (main_add Posix [''/'', ''w''] True default_extensions default_exclude_dirs readme_tree)
     = readme_tree
   \<and> calls (main_add Posix [''/'', ''w''] True default_extensions default_exclude_dirs readme_tree)
     = [([''/'', ''w'', ''readme.md''], ''dry_run'')]
   \<and> stats (main_add Posix [''/'', ''w''] True default_extensions default_exclude_dirs readme_tree)
       ''bom_added'' = Some 0
   \<and> stats (main_add Posix [''/'', ''w''] False default_extensions default_exclude_dirs readme_tree)
       ''bom_added'' = Some 1"
  by (simp add: walker_simps per_file_simps readme_tree_def default_extensions_def
      default_exclude_dirs_def)

subsection \<open>The round trip\<close>

text \<open>
  C2: For every file that does not begin with the UTF-8 BOM, has no zero byte in its
  first 1024 bytes and whose contents are valid UTF-8, running Add-BOM and then Remove-BOM
  (both real) restores its original bytes exactly.  The code does not: both procedures
  open the file in text mode with the default newline handling.  On POSIX the four bytes
  \<^verbatim>\<open>a\r\nb\<close> come back as \<^verbatim>\<open>a\nb\<close>; on Windows the three bytes \<^verbatim>\<open>a\nb\<close> come back as
  \<^verbatim>\<open>a\r\nb\<close>.
\<close>

theorem round_trip_rewrites_line_endings:
  "take 3 [0x61, 0x0D, 0x0A, 0x62] \<noteq> BOM_UTF8
   \<and> 0 \<notin> set (take 1024 [0x61, 0x0D, 0x0A, 0x62 :: byte])
   \<and> utf_8_decode [0x61, 0x0D, 0x0A, 0x62] = Some [0x61, 13, 10, 0x62]
   \<and> add_bom_to_file Posix (one_file [0x61, 0x0D, 0x0A, 0x62]) [''/'', ''w'', ''a.txt''] False
     = ((True, ''bom_added''), one_file [0xEF, 0xBB, 0xBF, 0x61, 0x0A, 0x62])
   \<and> remove_bom_from_file Posix (one_file [0xEF, 0xBB, 0xBF, 0x61, 0x0A, 0x62])
       [''/'', ''w'', ''a.txt''] False
     = ((True, ''bom_removed''), one_file [0x61, 0x0A, 0x62])
   \<and> add_bom_to_file Windows (one_file [0x61, 0x0A, 0x62]) [''/'', ''w'', ''a.txt''] False
     = ((True, ''bom_added''), one_file [0xEF, 0xBB, 0xBF, 0x61, 0x0D, 0x0A, 0x62])
   \<and> remove_bom_from_file Windows (one_file [0xEF, 0xBB, 0xBF, 0x61, 0x0D, 0x0A, 0x62])
       [''/'', ''w'', ''a.txt''] False
     = ((True, ''bom_removed''), one_file [0x61, 0x0D, 0x0A, 0x62])"
  by (simp add: one_file_def per_file_simps)

subsection \<open>Files with a zero byte\<close>




subsection \<open>The BOM prober\<close>

text \<open>
  C4: For every file path, the BOM prober returns true iff the first 3 bytes of the file
  exactly equal 0xEF, 0xBB, 0xBF; a file with fewer than 3 bytes yields false; and any
  failure while opening or reading yields false rather than an exception.
\<close>

theorem has_utf8_bom_spec:
  "(has_utf8_bom fs p \<longleftrightarrow>
      (\<exists>content. read_bytes fs p = Inr content \<and> 3 \<le> length content \<and>
         content ! 0 = 0xEF \<and> content ! 1 = 0xBB \<and> content ! 2 = 0xBF))
   \<and> (\<forall>content. read_bytes fs p = Inr content \<and> length content < 3 \<longrightarrow> \<not> has_utf8_bom fs p)
   \<and> (\<forall>e. read_bytes fs p = Inl e \<longrightarrow> \<not> has_utf8_bom fs p)"
proof (cases "read_bytes fs p")
  case (Inl e)
  then show ?thesis by (simp add: has_utf8_bom_def)
next
  case (Inr content)
  have short: "length content < 3 \<Longrightarrow> take 3 content \<noteq> BOM_UTF8"
    using take3_bom[of content] by auto
  from Inr short show ?thesis
    using take3_bom[of content] by (auto simp add: has_bom_read simp del: take_all)
qed

theorem has_utf8_bom_spec_witness:
  "has_utf8_bom (one_file [0xEF, 0xBB, 0xBF, 0x41]) [''/'', ''w'', ''a.txt'']
   \<and> read_bytes (one_file [0xEF, 0xBB]) [''/'', ''w'', ''a.txt''] = Inr [0xEF, 0xBB]
   \<and> \<not> has_utf8_bom (one_file [0xEF, 0xBB]) [''/'', ''w'', ''a.txt'']
   \<and> read_bytes (one_file []) [''/'', ''w'', ''gone.txt''] = Inl FileNotFoundError
   \<and> \<not> has_utf8_bom (one_file []) [''/'', ''w'', ''gone.txt'']"
  using has_utf8_bom_spec[of "one_file [0xEF, 0xBB, 0xBF, 0x41]" "[''/'', ''w'', ''a.txt'']"]
    has_utf8_bom_spec[of "one_file [0xEF, 0xBB]" "[''/'', ''w'', ''a.txt'']"]
    has_utf8_bom_spec[of "one_file []" "[''/'', ''w'', ''gone.txt'']"]
  by (simp add: one_file_def read_bytes_def)

subsection \<open>A file that already has the BOM\<close>




subsection \<open>A file that is not UTF-8\<close>




subsection \<open>Excluded directories\<close>

text \<open>
  C7: For every candidate file whose path contains a component equal to a configured
  excluded directory name, the batch walker performs zero processing attempts on it: it is
  not among the calls of the per-file procedure, the total counts the calls only, and the
  file is as it was at the end of the run.  This holds for both scripts, whatever the
  extension filter.
\<close>

theorem excluded_never_processed:
  assumes "excluded exclude_dirs p"
  shows "p \<notin> fst ` set (calls (main_add pf cwd d exts exclude_dirs fs))
       \<and> stats (main_add pf cwd d exts exclude_dirs fs) ''total_found'' =
           Some (length (calls (main_add pf cwd d exts exclude_dirs fs)))
       \<and> map_of (files (main_add pf cwd d exts exclude_dirs fs)) p = map_of fs p
       \<and> p \<notin> fst ` set (calls (main_remove pf cwd d exts' exclude_dirs fs))
       \<and> stats (main_remove pf cwd d exts' exclude_dirs fs) ''total_checked'' =
           Some (length (calls (main_remove pf cwd d exts' exclude_dirs fs)))
       \<and> map_of (files (main_remove pf cwd d exts' exclude_dirs fs)) p = map_of fs p"
proof -
  have a: "p \<notin> set (map fst (calls (main_add pf cwd d exts exclude_dirs fs)))"
    using assms by (auto simp: main_add_calls)
  have r: "p \<notin> set (map fst (calls (main_remove pf cwd d exts' exclude_dirs fs)))"
    using assms by (auto simp: main_remove_calls)
  from a r show ?thesis
    using assms by (simp add: main_add_total main_remove_total main_add_untouched
        main_remove_untouched)
qed

theorem excluded_never_processed_witness:
  "excluded default_exclude_dirs [''/'', ''w'', ''.git'', ''notes.md'']
   \<and> [''/'', ''w'', ''.git'', ''notes.md''] \<in> set (glob git_tree [''/'', ''w''] (Extension ''md''))
   \<and> [''/'', ''w'', ''.git'', ''notes.md''] \<notin>
       fst ` set (calls (main_add Posix [''/'', ''w''] False default_extensions
                          default_exclude_dirs git_tree))
   \<and> stats (main_add Posix [''/'', ''w''] False default_extensions default_exclude_dirs git_tree)
       ''total_found'' = Some 1
   \<and> map_of (files (main_add Posix [''/'', ''w''] False default_extensions default_exclude_dirs
                     git_tree)) [''/'', ''w'', ''.git'', ''notes.md'']
       = Some (File [0x68, 0x65, 0x6C, 0x6C, 0x6F] True True)"
proof -
  have e: "excluded default_exclude_dirs [''/'', ''w'', ''.git'', ''notes.md'']"
    by (simp add: excluded_def default_exclude_dirs_def)
  have g: "[''/'', ''w'', ''.git'', ''notes.md''] \<in> set (glob git_tree [''/'', ''w''] (Extension ''md''))"
    by (simp add: git_tree_def glob_def below_def matches_def endswith_def)
  have c: "length (calls (main_add Posix [''/'', ''w''] False default_extensions
                          default_exclude_dirs git_tree)) = 1"
    by (simp add: walker_simps per_file_simps git_tree_def default_extensions_def
        default_exclude_dirs_def)
  have m: "map_of git_tree [''/'', ''w'', ''.git'', ''notes.md'']
             = Some (File [0x68, 0x65, 0x6C, 0x6C, 0x6F] True True)"
    by (simp add: git_tree_def)
  from e g c m
    excluded_never_processed[OF e, of Posix "[''/'', ''w'']" False default_extensions git_tree]
  show ?thesis
    by simp
qed

subsection \<open>Every file gets an outcome\<close>




subsection \<open>The empty file\<close>




subsection \<open>A file with two BOMs\<close>




end
